theory Spec2Isabelle
  imports Complex_Main
begin

section \<open>JavaScript numbers\<close>

text \<open>
  The program computes with JavaScript numbers. They are modelled as exact reals
  extended by the three non-finite values a division can produce: rounding to
  binary64 and the sign of zero are not modelled. Literals and the values the
  caller passes (amounts, totals, clock readings) are finite, hence \<open>real\<close>;
  the result of \<open>/\<close> and everything computed from it is a \<open>jsnum\<close>.
\<close>

datatype jsnum = Fin real | PosInf | NegInf | NaN

fun js_add :: "jsnum \<Rightarrow> jsnum \<Rightarrow> jsnum" where
  "js_add (Fin a) (Fin b) = Fin (a + b)"
| "js_add NaN _ = NaN"
| "js_add _ NaN = NaN"
| "js_add PosInf NegInf = NaN"
| "js_add NegInf PosInf = NaN"
| "js_add PosInf _ = PosInf"
| "js_add _ PosInf = PosInf"
| "js_add NegInf _ = NegInf"
| "js_add _ NegInf = NegInf"

fun js_mul :: "jsnum \<Rightarrow> jsnum \<Rightarrow> jsnum" where
  "js_mul (Fin a) (Fin b) = Fin (a * b)"
| "js_mul NaN _ = NaN"
| "js_mul _ NaN = NaN"
| "js_mul PosInf (Fin b) = (if b = 0 then NaN else if 0 < b then PosInf else NegInf)"
| "js_mul NegInf (Fin b) = (if b = 0 then NaN else if 0 < b then NegInf else PosInf)"
| "js_mul (Fin a) PosInf = (if a = 0 then NaN else if 0 < a then PosInf else NegInf)"
| "js_mul (Fin a) NegInf = (if a = 0 then NaN else if 0 < a then NegInf else PosInf)"
| "js_mul PosInf PosInf = PosInf"
| "js_mul NegInf NegInf = PosInf"
| "js_mul PosInf NegInf = NegInf"
| "js_mul NegInf PosInf = NegInf"

text \<open>
  \<open>a / b\<close>. A zero divisor gives \<open>NaN\<close> for \<open>0 / 0\<close> and an infinity otherwise
  (the divisor counts as \<open>+0\<close>); a finite value divided by an infinity is \<open>0\<close>.
\<close>

fun js_div :: "jsnum \<Rightarrow> jsnum \<Rightarrow> jsnum" where
  "js_div (Fin a) (Fin b) =
     (if b \<noteq> 0 then Fin (a / b)
      else if a = 0 then NaN else if 0 < a then PosInf else NegInf)"
| "js_div NaN _ = NaN"
| "js_div _ NaN = NaN"
| "js_div (Fin a) PosInf = Fin 0"
| "js_div (Fin a) NegInf = Fin 0"
| "js_div PosInf (Fin b) = (if 0 \<le> b then PosInf else NegInf)"
| "js_div NegInf (Fin b) = (if 0 \<le> b then NegInf else PosInf)"
| "js_div _ _ = NaN"

text \<open>\<open>Math.round\<close>: the nearest integer, a tie going up.\<close>

fun js_round :: "jsnum \<Rightarrow> jsnum" where
  "js_round (Fin a) = Fin (of_int \<lfloor>a + 1 / 2\<rfloor>)"
| "js_round x = x"

text \<open>\<open>a < b\<close>: every comparison with \<open>NaN\<close> is false.\<close>

fun js_less :: "jsnum \<Rightarrow> jsnum \<Rightarrow> bool" where
  "js_less (Fin a) (Fin b) = (a < b)"
| "js_less NaN _ = False"
| "js_less _ NaN = False"
| "js_less _ NegInf = False"
| "js_less PosInf _ = False"
| "js_less NegInf _ = True"
| "js_less _ PosInf = True"

section \<open>StandardProgressCalculator\<close>

record calculator =
  speedHistory :: "jsnum list"
  maxHistorySize :: nat

definition new_calculator :: calculator where
  "new_calculator = \<lparr>speedHistory = [], maxHistorySize = 10\<rparr>"

text \<open>
  \<open>calculateSpeed(current, elapsed)\<close>: returns the speed and the calculator with
  its history updated. \<open>reduce((a, b) => a + b, 0)\<close> is a left fold from \<open>0\<close>;
  \<open>shift()\<close> drops the oldest sample.
\<close>

definition calculateSpeed :: "calculator \<Rightarrow> real \<Rightarrow> real \<Rightarrow> jsnum \<times> calculator" where
  "calculateSpeed c cur elapsed_s =
     (if elapsed_s \<le> 0 then (Fin 0, c)
      else
        let currentSpeed = js_div (Fin cur) (Fin elapsed_s);
            pushed = speedHistory c @ [currentSpeed];
            h = (if length pushed > maxHistorySize c then tl pushed else pushed)
        in (js_div (foldl js_add (Fin 0) h) (Fin (real (length h))),
            c\<lparr>speedHistory := h\<rparr>))"

text \<open>The object \<open>calculate\<close> returns.\<close>

record calculated =
  pd_current :: real
  pd_total :: real
  percentage :: jsnum
  elapsed :: real
  eta :: jsnum
  speed :: jsnum
  isComplete :: bool
  isIndeterminate :: bool

text \<open>
  \<open>calculate(current, total, startTime, lastUpdate)\<close>. The reading of
  \<open>performance.now()\<close> that the method takes is the parameter \<open>now\<close>.
\<close>

definition calculate ::
  "calculator \<Rightarrow> real \<Rightarrow> real \<Rightarrow> real \<Rightarrow> real \<Rightarrow> real \<Rightarrow> calculated \<times> calculator" where
  "calculate c cur tot startT lastUpdate now =
     (let elapsed_s = (now - startT) / 1000;
          pct = (if tot > 0
                 then js_div (js_round (js_mul (js_mul (js_div (Fin cur) (Fin tot)) (Fin 100)) (Fin 100)))
                        (Fin 100)
                 else Fin 0);
          (spd, c') = calculateSpeed c cur elapsed_s;
          eta_s = (if cur > 0 \<and> cur < tot \<and> js_less (Fin 0) spd
                   then js_div (Fin (tot - cur)) spd else Fin 0)
      in (\<lparr>pd_current = cur, pd_total = tot, percentage = pct, elapsed = elapsed_s,
            eta = eta_s, speed = spd, isComplete = (cur \<ge> tot),
            isIndeterminate = (tot \<le> 0)\<rparr>, c'))"

section \<open>ProgressTracker\<close>

text \<open>
  The tracker's and the bar's \<open>state\<close> are the strings \<open>"idle"\<close>, \<open>"active"\<close>,
  \<open>"completed"\<close> and \<open>"stopped"\<close>.
\<close>

datatype pstate = Idle | Active | Completed | Stopped

text \<open>
  An observer is a function or an object, known by its reference (the number). An
  object is called only if it has the handler: \<open>onProgress\<close> (first flag) for
  progress, \<open>onStateChange\<close> (second flag) for state changes. What a callback does
  is outside the program; it is taken not to call back into the tracker, and an
  error it throws is caught by the tracker and only logged.
\<close>

datatype observer = Callback nat | Listener nat bool bool

fun has_onProgress :: "observer \<Rightarrow> bool" where
  "has_onProgress (Callback _) = True"
| "has_onProgress (Listener _ p _) = p"

fun has_onStateChange :: "observer \<Rightarrow> bool" where
  "has_onStateChange (Callback _) = True"
| "has_onStateChange (Listener _ _ s) = s"

text \<open>The snapshot \<open>getProgress\<close> returns: the calculated data, the description and the state.\<close>

record progressData = calculated +
  pd_description :: string
  pd_state :: pstate

text \<open>
  A JavaScript \<open>Set\<close> keeps insertion order and ignores the insertion of a member:
  a list that \<open>set_add\<close> keeps free of duplicates.
\<close>

definition set_add :: "'a \<Rightarrow> 'a list \<Rightarrow> 'a list" where
  "set_add x xs = (if x \<in> set xs then xs else xs @ [x])"

definition set_delete :: "'a \<Rightarrow> 'a list \<Rightarrow> 'a list" where
  "set_delete x xs = removeAll x xs"

text \<open>
  The fields of the class, and two traces the model adds to make the calls to
  observers visible: \<open>notified\<close> lists every call of a progress observer with the
  snapshot passed, \<open>stateNotified\<close> every call of a state observer with
  \<open>(newState, oldState)\<close>.
\<close>

record tracker =
  total :: real
  current :: real
  description :: string
  startTime :: real
  lastUpdateTime :: real
  calculator :: calculator
  observers :: "observer list"
  state :: pstate
  stateObservers :: "observer list"
  notified :: "(observer \<times> progressData) list"
  stateNotified :: "(observer \<times> pstate \<times> pstate) list"

text \<open>The constructor; \<open>now\<close> is its reading of \<open>performance.now()\<close>.\<close>

definition new_tracker :: "real \<Rightarrow> string \<Rightarrow> calculator option \<Rightarrow> real \<Rightarrow> tracker" where
  "new_tracker tot descr calc_opt now =
     \<lparr>total = tot, current = 0, description = descr, startTime = now, lastUpdateTime = now,
      calculator = (case calc_opt of None \<Rightarrow> new_calculator | Some c \<Rightarrow> c),
      observers = [], state = Idle, stateObservers = [], notified = [], stateNotified = []\<rparr>"

text \<open>
  \<open>addObserver\<close> returns the function \<open>() => this.observers.delete(observer)\<close>:
  calling that handle is \<open>removeObserver\<close> of the same observer.
\<close>

definition addObserver :: "tracker \<Rightarrow> observer \<Rightarrow> tracker" where
  "addObserver t ob = t\<lparr>observers := set_add ob (observers t)\<rparr>"

definition removeObserver :: "tracker \<Rightarrow> observer \<Rightarrow> tracker" where
  "removeObserver t ob = t\<lparr>observers := set_delete ob (observers t)\<rparr>"

definition addStateObserver :: "tracker \<Rightarrow> observer \<Rightarrow> tracker" where
  "addStateObserver t ob = t\<lparr>stateObservers := set_add ob (stateObservers t)\<rparr>"

definition removeStateObserver :: "tracker \<Rightarrow> observer \<Rightarrow> tracker" where
  "removeStateObserver t ob = t\<lparr>stateObservers := set_delete ob (stateObservers t)\<rparr>"

definition notifyObservers :: "tracker \<Rightarrow> progressData \<Rightarrow> tracker" where
  "notifyObservers t pd =
     t\<lparr>notified := notified t @ map (\<lambda>ob. (ob, pd)) (filter has_onProgress (observers t))\<rparr>"

definition notifyStateChange :: "tracker \<Rightarrow> pstate \<Rightarrow> pstate \<Rightarrow> tracker" where
  "notifyStateChange t newState oldState =
     t\<lparr>stateNotified := stateNotified t
          @ map (\<lambda>ob. (ob, newState, oldState)) (filter has_onStateChange (stateObservers t))\<rparr>"

definition setState :: "tracker \<Rightarrow> pstate \<Rightarrow> tracker" where
  "setState t newState =
     (let oldState = state t
      in if oldState \<noteq> newState then notifyStateChange (t\<lparr>state := newState\<rparr>) newState oldState
         else t)"

text \<open>
  \<open>getProgress\<close> calls the calculator, which appends to its speed history: the
  tracker comes back with the calculator updated.
\<close>

definition getProgress :: "tracker \<Rightarrow> real \<Rightarrow> progressData \<times> tracker" where
  "getProgress t now =
     (let (cd, c') = calculate (calculator t) (current t) (total t) (startTime t)
                       (lastUpdateTime t) now
      in (\<lparr>pd_current = pd_current cd, pd_total = pd_total cd, percentage = percentage cd,
            elapsed = elapsed cd, eta = eta cd, speed = speed cd, isComplete = isComplete cd,
            isIndeterminate = isIndeterminate cd,
            pd_description = description t, pd_state = state t\<rparr>,
          t\<lparr>calculator := c'\<rparr>))"

text \<open>
  \<open>increment(amount)\<close>. \<open>nowU\<close> is the reading stored in \<open>lastUpdateTime\<close>,
  \<open>nowC\<close> the later one taken inside \<open>calculate\<close>; a completed tracker takes
  only the second.
\<close>

definition increment :: "tracker \<Rightarrow> real \<Rightarrow> real \<Rightarrow> real \<Rightarrow> progressData \<times> tracker" where
  "increment t amount nowU nowC =
     (if state t = Completed then getProgress t nowC
      else
        let t1 = t\<lparr>current := min (total t) (current t + amount), lastUpdateTime := nowU\<rparr>;
            (progress, t2) = getProgress t1 nowC;
            t3 = (if isComplete progress \<and> state t2 \<noteq> Completed then setState t2 Completed
                  else t2)
        in (progress, notifyObservers t3 progress))"

definition reset :: "tracker \<Rightarrow> real \<Rightarrow> tracker" where
  "reset t now =
     (let t1 = setState (t\<lparr>current := 0, startTime := now, lastUpdateTime := now\<rparr>) Idle
      in t1\<lparr>calculator := (calculator t1)\<lparr>speedHistory := []\<rparr>\<rparr>)"

definition complete :: "tracker \<Rightarrow> real \<Rightarrow> progressData \<times> tracker" where
  "complete t now =
     (if state t = Completed then getProgress t now
      else getProgress (setState (t\<lparr>current := total t\<rparr>) Completed) now)"

definition setTotal :: "tracker \<Rightarrow> real \<Rightarrow> tracker" where
  "setTotal t tot = t\<lparr>total := tot\<rparr>"

definition isCompleted :: "tracker \<Rightarrow> bool" where
  "isCompleted t = (state t = Completed)"

text \<open>A run of \<open>increment\<close> calls, each with its amount and its two clock readings.\<close>

fun increments :: "tracker \<Rightarrow> (real \<times> real \<times> real) list \<Rightarrow> tracker" where
  "increments t [] = t"
| "increments t ((amount, nowU, nowC) # rest) = increments (snd (increment t amount nowU nowC)) rest"

section \<open>Renderers\<close>

text \<open>
  What the program writes. The text of a progress line is a function of the
  snapshot, the renderer's configuration and the spinner frame; only its kind
  and the data it shows are kept. \<open>CompleteMsg\<close> is the \<open>" Complete!"\<close> suffix.
\<close>

datatype line = BarLine progressData | SpinnerLine nat string

datatype out_event =
  ClearLine | StdoutWrite line | CompleteMsg | ConsoleLog line | HideCursor | ShowCursor

text \<open>
  The options of \<open>ConsoleProgressRenderer\<close> that decide whether it writes; the
  others (bar length, glyphs, colours, which statistics to show, precision) only
  shape the text of the line.
\<close>

record config =
  updateThrottle :: real
  template :: "string option"

text \<open>The defaults the constructor fills in for an empty configuration object.\<close>

definition default_config :: config where
  "default_config = \<lparr>updateThrottle = 0, template = None\<rparr>"

text \<open>
  \<open>spinner\<close> is \<open>None\<close> for \<open>null\<close>, else the index of the spinner's next frame
  (the renderer always uses the ten default frames). \<open>lastLineLength\<close>, which is
  written and never read, is left out.
\<close>

record consoleRenderer =
  config :: config
  spinner :: "nat option"
  lastRenderTime :: real
  hasRenderedCompletion :: bool

definition new_consoleRenderer :: "config \<Rightarrow> consoleRenderer" where
  "new_consoleRenderer cfg =
     \<lparr>config = cfg, spinner = None, lastRenderTime = 0, hasRenderedCompletion = False\<rparr>"

text \<open>\<open>a % b\<close> on finite numbers: the remainder has the sign of \<open>a\<close>; \<open>a % 0\<close> is \<open>NaN\<close>.\<close>

definition js_rem :: "real \<Rightarrow> real \<Rightarrow> jsnum" where
  "js_rem a b =
     (if b = 0 then NaN
      else Fin (a - b * of_int (if 0 \<le> a / b then \<lfloor>a / b\<rfloor> else \<lceil>a / b\<rceil>)))"

text \<open>
  \<open>ConsoleProgressRenderer.render\<close>. \<open>now\<close> is its reading of \<open>performance.now()\<close>,
  \<open>interactive\<close> the value of \<open>TerminalUtils.isInteractive\<close>. With a template the
  method returns the filled-in string and writes nothing.
\<close>

definition console_render ::
  "consoleRenderer \<Rightarrow> progressData \<Rightarrow> real \<Rightarrow> bool \<Rightarrow> consoleRenderer \<times> out_event list" where
  "console_render r pd now interactive =
     (if updateThrottle (config r) > 0 \<and> now - lastRenderTime r < updateThrottle (config r)
      then (r, [])
      else
        let r1 = r\<lparr>lastRenderTime := now\<rparr>
        in if isComplete pd \<and> hasRenderedCompletion r1 then (r1, [])
           else if template (config r1) \<noteq> None then (r1, [])
           else
             let (r2, ln) =
                   (if isIndeterminate pd
                    then let i = (case spinner r1 of None \<Rightarrow> 0 | Some i \<Rightarrow> i)
                         in (r1\<lparr>spinner := Some ((i + 1) mod 10)\<rparr>,
                             SpinnerLine i (pd_description pd))
                    else (r1, BarLine pd))
             in if interactive
                then if isComplete pd \<and> \<not> hasRenderedCompletion r2
                     then (r2\<lparr>hasRenderedCompletion := True\<rparr>,
                           [ClearLine, StdoutWrite ln, CompleteMsg])
                     else (r2, [ClearLine, StdoutWrite ln])
                else if isComplete pd \<or> pd_current pd = 0
                        \<or> js_rem (pd_current pd) (of_int \<lceil>pd_total pd / 10\<rceil>) = Fin 0
                     then (r2, [ConsoleLog ln])
                     else (r2, []))"

definition console_cleanup :: "consoleRenderer \<Rightarrow> bool \<Rightarrow> consoleRenderer \<times> out_event list" where
  "console_cleanup r interactive =
     (r\<lparr>hasRenderedCompletion := False\<rparr>, if interactive then [ShowCursor] else [])"

definition console_reset :: "consoleRenderer \<Rightarrow> consoleRenderer" where
  "console_reset r = r\<lparr>hasRenderedCompletion := False, lastRenderTime := 0\<rparr>"

text \<open>\<open>SilentProgressRenderer\<close>: each history entry is the snapshot with its \<open>Date.now()\<close> stamp.\<close>

record silentRenderer =
  progressHistory :: "(progressData \<times> real) list"
  lastProgress :: "progressData option"

definition new_silentRenderer :: silentRenderer where
  "new_silentRenderer = \<lparr>progressHistory = [], lastProgress = None\<rparr>"

definition silent_render :: "silentRenderer \<Rightarrow> progressData \<Rightarrow> real \<Rightarrow> silentRenderer" where
  "silent_render r pd stamp =
     r\<lparr>lastProgress := Some pd, progressHistory := progressHistory r @ [(pd, stamp)]\<rparr>"

definition silent_clear :: "silentRenderer \<Rightarrow> silentRenderer" where
  "silent_clear r = r\<lparr>progressHistory := [], lastProgress := None\<rparr>"

text \<open>
  The renderer of a bar: one of the two classes the library itself constructs
  for it. \<open>render\<close> dispatches; \<open>now\<close> is the clock reading the renderer takes.
\<close>

datatype renderer = Console consoleRenderer | Silent silentRenderer

fun render :: "renderer \<Rightarrow> progressData \<Rightarrow> real \<Rightarrow> bool \<Rightarrow> renderer \<times> out_event list" where
  "render (Console r) pd now interactive =
     (let (r', evs) = console_render r pd now interactive in (Console r', evs))"
| "render (Silent r) pd now interactive = (Silent (silent_render r pd now), [])"

fun renderer_reset :: "renderer \<Rightarrow> renderer" where
  "renderer_reset (Console r) = Console (console_reset r)"
| "renderer_reset (Silent r) = Silent (silent_clear r)"

section \<open>ProgressBar\<close>

text \<open>
  \<open>bar_state\<close> is the bar's own \<open>state\<close>. \<open>updateInterval\<close> and \<open>cleanupFn\<close> tell
  whether the timer is set and the cleanup task registered. \<open>interactive\<close> is
  \<open>TerminalUtils.isInteractive\<close>, and \<open>terminal\<close> collects what the bar and its
  renderer have written.
\<close>

record progressBar =
  tracker :: tracker
  renderer :: renderer
  bar_state :: pstate
  updateInterval :: bool
  cleanupFn :: bool
  interactive :: bool
  terminal :: "out_event list"

definition createDefaultRenderer :: "bool \<Rightarrow> renderer" where
  "createDefaultRenderer tty =
     (if \<not> tty then Silent new_silentRenderer else Console (new_consoleRenderer default_config))"

definition new_progressBar :: "bool \<Rightarrow> real \<Rightarrow> string \<Rightarrow> renderer option \<Rightarrow> real \<Rightarrow> progressBar" where
  "new_progressBar tty tot descr rend_opt now =
     \<lparr>tracker = new_tracker tot descr None now,
      renderer = (case rend_opt of None \<Rightarrow> createDefaultRenderer tty | Some r \<Rightarrow> r),
      bar_state = Idle, updateInterval = False, cleanupFn = False, interactive = tty,
      terminal = []\<rparr>"

text \<open>
  The constructor registers a state observer on its tracker that sets the bar's
  state to \<open>"completed"\<close> when the tracker reports that as its new state. The
  tracker calls it inside \<open>setState\<close>, that is, exactly when an operation moves
  the tracker's state to \<open>Completed\<close> from another state: \<open>hook\<close> applies it to
  the bar, given the tracker before and after the operation.
\<close>

definition hook :: "tracker \<Rightarrow> tracker \<Rightarrow> progressBar \<Rightarrow> progressBar" where
  "hook before after b =
     (if state before \<noteq> Completed \<and> state after = Completed then b\<lparr>bar_state := Completed\<rparr>
      else b)"

definition bar_start :: "progressBar \<Rightarrow> progressBar" where
  "bar_start b =
     (if bar_state b \<noteq> Idle then b
      else
        let b1 = b\<lparr>bar_state := Active\<rparr>;
            t' = setState (tracker b1) Active;
            b2 = hook (tracker b1) t' (b1\<lparr>tracker := t'\<rparr>);
            b3 = b2\<lparr>terminal := terminal b2 @ (if interactive b2 then [HideCursor] else []),
                    cleanupFn := True\<rparr>
        in if total (tracker b3) \<le> 0 then b3\<lparr>updateInterval := True\<rparr> else b3)"

definition bar_stop :: "progressBar \<Rightarrow> progressBar" where
  "bar_stop b =
     (if bar_state b = Idle \<or> bar_state b = Stopped then b
      else b\<lparr>bar_state := Stopped,
              terminal := terminal b @ (if interactive b then [ShowCursor] else []),
              updateInterval := False, cleanupFn := False\<rparr>)"

definition bar_getProgress :: "progressBar \<Rightarrow> real \<Rightarrow> progressData \<times> progressBar" where
  "bar_getProgress b now =
     (let (pd, t') = getProgress (tracker b) now in (pd, b\<lparr>tracker := t'\<rparr>))"

text \<open>The rendering step shared by \<open>update\<close>, \<open>complete\<close> and the timer.\<close>

definition bar_render :: "progressBar \<Rightarrow> progressData \<Rightarrow> real \<Rightarrow> progressBar" where
  "bar_render b pd now =
     (let (r', evs) = render (renderer b) pd now (interactive b)
      in b\<lparr>renderer := r', terminal := terminal b @ evs\<rparr>)"

text \<open>
  \<open>update(increment)\<close>. \<open>nowU\<close> and \<open>nowC\<close> are the readings of the tracker's
  \<open>increment\<close>, \<open>nowR\<close> the renderer's.
\<close>

definition bar_update ::
  "progressBar \<Rightarrow> real \<Rightarrow> real \<Rightarrow> real \<Rightarrow> real \<Rightarrow> progressData \<times> progressBar" where
  "bar_update b amount nowU nowC nowR =
     (if bar_state b = Completed then bar_getProgress b nowC
      else
        let b1 = (if bar_state b = Idle then bar_start b else b);
            (progress, t') = increment (tracker b1) amount nowU nowC;
            b2 = hook (tracker b1) t' (b1\<lparr>tracker := t'\<rparr>);
            b3 = bar_render b2 progress nowR;
            b4 = (if isComplete progress \<and> bar_state b3 \<noteq> Completed
                  then bar_stop (b3\<lparr>bar_state := Completed\<rparr>) else b3)
        in (progress, b4))"

definition bar_setTotal :: "progressBar \<Rightarrow> real \<Rightarrow> progressBar" where
  "bar_setTotal b tot = b\<lparr>tracker := setTotal (tracker b) tot\<rparr>"

definition bar_complete :: "progressBar \<Rightarrow> real \<Rightarrow> real \<Rightarrow> progressData \<times> progressBar" where
  "bar_complete b nowC nowR =
     (if bar_state b = Completed then bar_getProgress b nowC
      else
        let b1 = b\<lparr>bar_state := Completed\<rparr>;
            (progress, t') = complete (tracker b1) nowC;
            b2 = hook (tracker b1) t' (b1\<lparr>tracker := t'\<rparr>);
            b3 = bar_render b2 progress nowR
        in (progress, bar_stop b3))"

definition bar_reset :: "progressBar \<Rightarrow> real \<Rightarrow> progressBar" where
  "bar_reset b now =
     (let t' = reset (tracker b) now;
          b1 = hook (tracker b) t' (b\<lparr>tracker := t'\<rparr>)
      in b1\<lparr>bar_state := Idle, renderer := renderer_reset (renderer b1)\<rparr>)"

definition bar_isCompleted :: "progressBar \<Rightarrow> bool" where
  "bar_isCompleted b = (bar_state b = Completed)"

text \<open>The body of the timer that \<open>start\<close> sets for an indeterminate bar.\<close>

definition bar_tick :: "progressBar \<Rightarrow> real \<Rightarrow> real \<Rightarrow> progressBar" where
  "bar_tick b nowC nowR =
     (if updateInterval b \<and> bar_state b = Active
      then let (pd, b1) = bar_getProgress b nowC in bar_render b1 pd nowR
      else b)"

section \<open>CLIProgressHelper\<close>

text \<open>
  The task passed to \<open>withProgress\<close> sees the bar only through the \<open>update\<close>
  callback, which returns nothing: what it does to the bar is the sequence of
  its calls of \<open>update\<close> (while it is suspended the timer may fire), and then
  it returns a result (\<open>Inr\<close>) or throws (\<open>Inl\<close>).
\<close>

datatype task_event = CallUpdate real real real real | TimerTick real real

fun bar_event :: "progressBar \<Rightarrow> task_event \<Rightarrow> progressBar" where
  "bar_event b (CallUpdate amount nowU nowC nowR) = snd (bar_update b amount nowU nowC nowR)"
| "bar_event b (TimerTick nowC nowR) = bar_tick b nowC nowR"

definition run_task :: "progressBar \<Rightarrow> task_event list \<Rightarrow> progressBar" where
  "run_task b evs = foldl bar_event b evs"

text \<open>
  \<open>withProgress(total, description, asyncTask)\<close>: the builder gives the bar a
  \<open>ConsoleProgressRenderer\<close> with the default configuration. The result is what
  the call returns (\<open>Inr\<close>) or throws (\<open>Inl\<close>), the bar as the call leaves it,
  and the failure notices written with \<open>console.error\<close>, each the description
  and the error whose message it shows.
\<close>

definition withProgress ::
  "bool \<Rightarrow> real \<Rightarrow> string \<Rightarrow> task_event list \<Rightarrow> 'e + 'r \<Rightarrow> real \<Rightarrow> real \<Rightarrow> real
     \<Rightarrow> ('e + 'r) \<times> progressBar \<times> (string \<times> 'e) list" where
  "withProgress tty tot descr evs outcome now0 nowC nowR =
     (let b0 = new_progressBar tty tot descr
                 (Some (Console (new_consoleRenderer default_config))) now0;
          b1 = run_task (bar_start b0) evs
      in case outcome of
           Inr result \<Rightarrow>
             (Inr result,
              if \<not> bar_isCompleted b1 then snd (bar_complete b1 nowC nowR) else b1, [])
         | Inl err \<Rightarrow> (Inl err, bar_stop b1, [(descr, err)]))"

section \<open>Notions for the statements\<close>


text \<open>How often the tracker has called the progress observer \<open>ob\<close> so far.\<close>

definition calls_to :: "observer \<Rightarrow> tracker \<Rightarrow> nat" where
  "calls_to ob t = length (filter (\<lambda>e. fst e = ob) (notified t))"

text \<open>The history of a bar's silent renderer: one entry for each call of \<open>render\<close>.\<close>

definition silent_history :: "renderer \<Rightarrow> (progressData \<times> real) list" where
  "silent_history r = (case r of Silent s \<Rightarrow> progressHistory s | Console _ \<Rightarrow> [])"

text \<open>A bar that has been started and not stopped: its state follows its tracker.\<close>

definition started :: "progressBar \<Rightarrow> bool" where
  "started b =
     (if state (tracker b) = Completed then bar_state b = Completed else bar_state b = Active)"


section \<open>Runs of tracker operations\<close>

text \<open>
  The operations of a tracker, each with the clock readings it takes, in the
  order it takes them.
\<close>

datatype tracker_op =
    Increment real real real
  | GetProgress real
  | Complete real
  | Reset real
  | SetTotal real
  | SetState pstate
  | AddObserver observer
  | RemoveObserver observer
  | AddStateObserver observer
  | RemoveStateObserver observer

text \<open>An operation gives the snapshot it returns, if it returns one, and the tracker after it.\<close>

fun apply_op :: "tracker \<Rightarrow> tracker_op \<Rightarrow> progressData option \<times> tracker" where
  "apply_op t (Increment amount nowU nowC) =
     (let (pd, t') = increment t amount nowU nowC in (Some pd, t'))"
| "apply_op t (GetProgress now) = (let (pd, t') = getProgress t now in (Some pd, t'))"
| "apply_op t (Complete now) = (let (pd, t') = complete t now in (Some pd, t'))"
| "apply_op t (Reset now) = (None, reset t now)"
| "apply_op t (SetTotal tot) = (None, setTotal t tot)"
| "apply_op t (SetState s) = (None, setState t s)"
| "apply_op t (AddObserver ob) = (None, addObserver t ob)"
| "apply_op t (RemoveObserver ob) = (None, removeObserver t ob)"
| "apply_op t (AddStateObserver ob) = (None, addStateObserver t ob)"
| "apply_op t (RemoveStateObserver ob) = (None, removeStateObserver t ob)"

fun op_clock :: "tracker_op \<Rightarrow> real list" where
  "op_clock (Increment amount nowU nowC) = [nowU, nowC]"
| "op_clock (GetProgress now) = [now]"
| "op_clock (Complete now) = [now]"
| "op_clock (Reset now) = [now]"
| "op_clock _ = []"

definition run_ops :: "tracker \<Rightarrow> tracker_op list \<Rightarrow> tracker" where
  "run_ops t ops = foldl (\<lambda>t' op. snd (apply_op t' op)) t ops"

text \<open>The finite numbers, and the value of one.\<close>

fun is_fin :: "jsnum \<Rightarrow> bool" where
  "is_fin (Fin _) = True"
| "is_fin _ = False"

fun fin_of :: "jsnum \<Rightarrow> real" where
  "fin_of (Fin r) = r"
| "fin_of _ = 0"

text \<open>
  What holds of a tracker whose latest clock reading is \<open>clk\<close>: the history has
  at most ten samples, all finite, and is empty unless time has passed since
  the start.
\<close>

definition history_ok :: "tracker \<Rightarrow> real \<Rightarrow> bool" where
  "history_ok t clk =
     (maxHistorySize (calculator t) = 10
      \<and> length (speedHistory (calculator t)) \<le> 10
      \<and> list_all is_fin (speedHistory (calculator t))
      \<and> startTime t \<le> clk
      \<and> (speedHistory (calculator t) = [] \<or> startTime t < clk))"

text \<open>The speed of a snapshot is the mean of the history \<open>h\<close> it was computed from.\<close>

definition mean_of :: "jsnum list \<Rightarrow> jsnum \<Rightarrow> bool" where
  "mean_of h s =
     (if h = [] then s = Fin 0
      else \<exists>rs. h = map Fin rs \<and> s = Fin (sum_list rs / real (length rs)))"

section \<open>Facts about the calculator\<close>

lemma percentage_calculate:
  "percentage (fst (calculate c cur tot startT lastUpdate now)) =
     (if tot > 0 then Fin (of_int \<lfloor>cur / tot * 100 * 100 + 1 / 2\<rfloor> / 100) else Fin 0)"
  by (simp add: calculate_def Let_def split: prod.splits)

lemma round_pct_bounds:
  fixes cur tot :: real
  assumes "0 < tot" "0 \<le> cur" "cur \<le> tot"
  shows "0 \<le> (of_int \<lfloor>cur / tot * 100 * 100 + 1 / 2\<rfloor> :: real) / 100"
    and "(of_int \<lfloor>cur / tot * 100 * 100 + 1 / 2\<rfloor> :: real) / 100 \<le> 100"
proof -
  let ?x = "cur / tot * 100 * 100 + 1 / 2"
  have q0: "0 \<le> cur / tot" using assms by simp
  have q1: "cur / tot \<le> 1" using assms by simp
  have "0 \<le> ?x" using q0 by simp
  then have "0 \<le> \<lfloor>?x\<rfloor>" by simp
  then show "0 \<le> (of_int \<lfloor>?x\<rfloor> :: real) / 100" by simp
  have "?x < 10001" using q1 by simp
  then have "\<lfloor>?x\<rfloor> < 10001" by (simp add: floor_less_iff)
  then have "\<lfloor>?x\<rfloor> \<le> 10000" by simp
  then have "(of_int \<lfloor>?x\<rfloor> :: real) \<le> 10000" by linarith
  then show "(of_int \<lfloor>?x\<rfloor> :: real) / 100 \<le> 100" by simp
qed


text \<open>
  Claim C2. For \<open>total > 0\<close> and \<open>0 \<le> current \<le> total\<close> the percentage that
  \<open>calculate\<close> reports is a finite number between 0 and 100; for \<open>current = total\<close>
  it is exactly 100; for \<open>total \<le> 0\<close> it is 0.
\<close>

theorem C2_percentage_range:
  "(0 < tot \<and> 0 \<le> cur \<and> cur \<le> tot \<longrightarrow>
      (\<exists>p. percentage (fst (calculate c cur tot startT lastUpdate now)) = Fin p
           \<and> 0 \<le> p \<and> p \<le> 100))
   \<and> (0 < tot \<longrightarrow> percentage (fst (calculate c tot tot startT lastUpdate now)) = Fin 100)
   \<and> (tot \<le> 0 \<longrightarrow> percentage (fst (calculate c cur tot startT lastUpdate now)) = Fin 0)"
proof (intro conjI impI)
  assume a: "0 < tot \<and> 0 \<le> cur \<and> cur \<le> tot"
  let ?p = "(of_int \<lfloor>cur / tot * 100 * 100 + 1 / 2\<rfloor> :: real) / 100"
  have "percentage (fst (calculate c cur tot startT lastUpdate now)) = Fin ?p"
    using a by (simp only: percentage_calculate if_True)
  moreover have "0 \<le> ?p" and "?p \<le> 100"
    using a round_pct_bounds [of tot cur] by blast+
  ultimately show "\<exists>p. percentage (fst (calculate c cur tot startT lastUpdate now)) = Fin p
           \<and> 0 \<le> p \<and> p \<le> 100"
    by blast
next
  assume "0 < tot"
  then show "percentage (fst (calculate c tot tot startT lastUpdate now)) = Fin 100"
    by (simp add: percentage_calculate)
next
  assume "tot \<le> 0"
  then show "percentage (fst (calculate c cur tot startT lastUpdate now)) = Fin 0"
    by (simp add: percentage_calculate)
qed

theorem C2_percentage_range_witness:
  "(0::real) < 3 \<and> (0::real) \<le> 1 \<and> (1::real) \<le> 3
   \<and> (\<exists>p. percentage (fst (calculate new_calculator 1 3 0 0 1000)) = Fin p \<and> 0 \<le> p \<and> p \<le> 100)
   \<and> percentage (fst (calculate new_calculator 3 3 0 0 1000)) = Fin 100
   \<and> (0::real) \<le> 0 \<and> percentage (fst (calculate new_calculator 1 0 0 0 1000)) = Fin 0"
  using C2_percentage_range [of 3 1 new_calculator 0 0 1000]
        C2_percentage_range [of 0 1 new_calculator 0 0 1000]
  by simp

lemma eta_calculate:
  "eta (fst (calculate c cur tot startT lastUpdate now)) =
     (if cur > 0 \<and> cur < tot \<and> js_less (Fin 0) (speed (fst (calculate c cur tot startT lastUpdate now)))
      then js_div (Fin (tot - cur)) (speed (fst (calculate c cur tot startT lastUpdate now)))
      else Fin 0)"
  by (simp add: calculate_def Let_def split: prod.splits)



section \<open>Facts about the tracker\<close>

lemma getProgress_snd:
  "snd (getProgress t now) =
     t\<lparr>calculator := snd (calculate (calculator t) (current t) (total t) (startTime t)
                          (lastUpdateTime t) now)\<rparr>"
  by (simp add: getProgress_def split: prod.splits)

lemma getProgress_fst:
  "fst (getProgress t now) =
     (let cd = fst (calculate (calculator t) (current t) (total t) (startTime t)
                          (lastUpdateTime t) now)
      in \<lparr>pd_current = pd_current cd, pd_total = pd_total cd, percentage = percentage cd,
            elapsed = elapsed cd, eta = eta cd, speed = speed cd, isComplete = isComplete cd,
            isIndeterminate = isIndeterminate cd,
            pd_description = description t, pd_state = state t\<rparr>)"
  by (simp add: getProgress_def split: prod.splits)

lemma calculate_flags:
  "isComplete (fst (calculate c cur tot s l now)) = (cur \<ge> tot)"
  "isIndeterminate (fst (calculate c cur tot s l now)) = (tot \<le> 0)"
  "pd_current (fst (calculate c cur tot s l now)) = cur"
  "pd_total (fst (calculate c cur tot s l now)) = tot"
  "elapsed (fst (calculate c cur tot s l now)) = (now - s) / 1000"
  by (simp_all add: calculate_def Let_def split: prod.splits)

lemma setState_fields:
  "current (setState t s) = current t"
  "total (setState t s) = total t"
  "state (setState t s) = s"
  "calculator (setState t s) = calculator t"
  "observers (setState t s) = observers t"
  "stateObservers (setState t s) = stateObservers t"
  "notified (setState t s) = notified t"
  "startTime (setState t s) = startTime t"
  "lastUpdateTime (setState t s) = lastUpdateTime t"
  "description (setState t s) = description t"
  by (simp_all add: setState_def notifyStateChange_def Let_def)

lemma setState_stateNotified:
  "stateNotified (setState t s) =
     (if state t = s then stateNotified t
      else stateNotified t @ map (\<lambda>ob. (ob, s, state t)) (filter has_onStateChange (stateObservers t)))"
  by (simp add: setState_def notifyStateChange_def Let_def)

lemma getProgress_fields:
  "pd_current (fst (getProgress t now)) = current t"
  "pd_total (fst (getProgress t now)) = total t"
  "isComplete (fst (getProgress t now)) = (total t \<le> current t)"
  "isIndeterminate (fst (getProgress t now)) = (total t \<le> 0)"
  "pd_description (fst (getProgress t now)) = description t"
  "pd_state (fst (getProgress t now)) = state t"
  "elapsed (fst (getProgress t now)) = (now - startTime t) / 1000"
  by (simp_all add: getProgress_fst Let_def calculate_flags)

lemma getProgress_keeps:
  "current (snd (getProgress t now)) = current t"
  "total (snd (getProgress t now)) = total t"
  "state (snd (getProgress t now)) = state t"
  "description (snd (getProgress t now)) = description t"
  "startTime (snd (getProgress t now)) = startTime t"
  "lastUpdateTime (snd (getProgress t now)) = lastUpdateTime t"
  "observers (snd (getProgress t now)) = observers t"
  "stateObservers (snd (getProgress t now)) = stateObservers t"
  "notified (snd (getProgress t now)) = notified t"
  "stateNotified (snd (getProgress t now)) = stateNotified t"
  by (simp_all add: getProgress_snd)

lemma getProgress_percentage:
  "percentage (fst (getProgress t now)) =
     (if total t > 0 then Fin (of_int \<lfloor>current t / total t * 100 * 100 + 1 / 2\<rfloor> / 100)
      else Fin 0)"
  by (simp add: getProgress_fst Let_def percentage_calculate)

lemma getProgress_eta_done:
  "total t \<le> current t \<Longrightarrow> eta (fst (getProgress t now)) = Fin 0"
  by (simp add: getProgress_fst Let_def eta_calculate)

lemma increment_current:
  "current (snd (increment t a u c)) =
     (if state t = Completed then current t else min (total t) (current t + a))"
  by (simp add: increment_def getProgress_snd getProgress_fst Let_def notifyObservers_def
        setState_fields case_prod_unfold)

lemma increment_total: "total (snd (increment t a u c)) = total t"
  by (simp add: increment_def getProgress_snd getProgress_fst Let_def notifyObservers_def
        setState_fields case_prod_unfold)

lemma increment_state:
  "state (snd (increment t a u c)) =
     (if state t = Completed \<or> total t \<le> min (total t) (current t + a) then Completed else state t)"
  by (simp add: increment_def getProgress_snd getProgress_fst Let_def notifyObservers_def
        setState_fields calculate_flags case_prod_unfold)

lemma increment_observers: "observers (snd (increment t a u c)) = observers t"
  by (simp add: increment_def getProgress_snd getProgress_fst Let_def notifyObservers_def
        setState_fields case_prod_unfold)

lemma increment_notified:
  "notified (snd (increment t a u c)) =
     (if state t = Completed then notified t
      else notified t @ map (\<lambda>ob. (ob, fst (increment t a u c)))
                          (filter has_onProgress (observers t)))"
  by (simp add: increment_def getProgress_snd getProgress_fst Let_def notifyObservers_def
        setState_fields case_prod_unfold)

lemma increment_completed:
  assumes "state t = Completed"
  shows "increment t a u c = getProgress t c"
    and "current (snd (increment t a u c)) = current t"
    and "total (snd (increment t a u c)) = total t"
    and "state (snd (increment t a u c)) = state t"
    and "notified (snd (increment t a u c)) = notified t"
    and "pd_state (fst (increment t a u c)) = Completed"
  using assms by (simp_all add: increment_def getProgress_keeps getProgress_fields)

lemma increment_keeps_unfinished:
  "state t \<noteq> Completed \<Longrightarrow>
     isComplete (fst (increment t a u c)) = (state (snd (increment t a u c)) = Completed)"
  by (simp add: increment_def getProgress_snd getProgress_fst Let_def notifyObservers_def
        setState_fields calculate_flags case_prod_unfold)

lemma complete_first:
  assumes "state t \<noteq> Completed"
  shows "current (snd (complete t now)) = total t"
    and "total (snd (complete t now)) = total t"
    and "state (snd (complete t now)) = Completed"
    and "description (snd (complete t now)) = description t"
    and "notified (snd (complete t now)) = notified t"
    and "stateNotified (snd (complete t now)) =
           stateNotified t @ map (\<lambda>ob. (ob, Completed, state t))
                                (filter has_onStateChange (stateObservers t))"
  using assms
  by (simp_all add: complete_def getProgress_keeps setState_fields setState_stateNotified)

lemma complete_again:
  assumes "state t = Completed"
  shows "complete t now = getProgress t now"
  using assms by (simp add: complete_def)

section \<open>Runs of increments\<close>





text \<open>Five increments of 1 on a tracker with total 5 complete it at 100 percent.\<close>

lemma five_of_five:
  "current (increments (new_tracker 5 ''Progress'' None 0)
      [(1, 10, 10), (1, 20, 20), (1, 30, 30), (1, 40, 40), (1, 50, 50)]) = 5"
  "state (increments (new_tracker 5 ''Progress'' None 0)
      [(1, 10, 10), (1, 20, 20), (1, 30, 30), (1, 40, 40), (1, 50, 50)]) = Completed"
  "percentage (fst (getProgress (increments (new_tracker 5 ''Progress'' None 0)
      [(1, 10, 10), (1, 20, 20), (1, 30, 30), (1, 40, 40), (1, 50, 50)]) 60)) = Fin 100"
  by (simp_all add: increment_current increment_state increment_total getProgress_percentage
        new_tracker_def)




section \<open>Observers\<close>

lemma filter_fst_map_pair:
  "length (filter (\<lambda>e. fst e = ob) (map (\<lambda>x. (x, pd)) xs)) = count_list xs ob"
  by (induction xs) auto

lemma length_filter_conj_eq:
  "length (filter (\<lambda>x. P x \<and> x = ob) xs) = count_list (filter P xs) ob"
  by (induction xs) auto

lemma calls_to_increment:
  "calls_to ob (snd (increment t a u c)) =
     calls_to ob t + (if state t = Completed then 0
                      else count_list (filter has_onProgress (observers t)) ob)"
  by (simp add: calls_to_def increment_notified filter_fst_map_pair length_filter_conj_eq)

lemma count_list_filter:
  "count_list (filter P xs) x = (if P x then count_list xs x else 0)"
  by (induction xs) auto

lemma count_list_distinct: "distinct xs \<Longrightarrow> count_list xs x = (if x \<in> set xs then 1 else 0)"
  by (induction xs) auto

lemma distinct_set_add: "distinct xs \<Longrightarrow> distinct (set_add x xs)"
  by (simp add: set_add_def)

lemma distinct_set_delete: "distinct xs \<Longrightarrow> distinct (set_delete x xs)"
  by (simp add: set_delete_def distinct_removeAll)

lemma set_add_idem: "set_add x (set_add x xs) = set_add x xs"
  by (simp add: set_add_def)

lemma calls_to_increments_absent:
  "ob \<notin> set (observers t) \<Longrightarrow> calls_to ob (increments t xs) = calls_to ob t"
proof (induction t xs rule: increments.induct)
  case (1 t)
  then show ?case by simp
next
  case (2 t amount nowU nowC rest)
  then show ?case
    by (simp add: increment_observers calls_to_increment count_list_filter count_list_0_iff)
qed

lemma run_ops_snoc: "run_ops t (ops @ [op]) = snd (apply_op (run_ops t ops) op)"
  by (simp add: run_ops_def)

lemma apply_op_distinct:
  "distinct (observers t) \<Longrightarrow> distinct (observers (snd (apply_op t op)))"
  by (cases op)
     (simp_all add: case_prod_unfold Let_def increment_observers getProgress_keeps
        complete_def setState_fields reset_def setTotal_def addObserver_def removeObserver_def
        addStateObserver_def removeStateObserver_def distinct_set_add distinct_set_delete)

lemma run_ops_distinct: "distinct (observers (run_ops (new_tracker T d co t0) ops))"
proof (induction ops rule: rev_induct)
  case Nil
  show ?case by (simp add: run_ops_def new_tracker_def)
next
  case (snoc op ops)
  then show ?case by (simp add: run_ops_snoc apply_op_distinct)
qed

text \<open>
  Claim C10. Adding the same observer twice stores it once; an increment of a
  tracker that is not completed then calls it exactly once; the handle either
  \<open>addObserver\<close> returned deletes it, and no later increment calls it.
\<close>

theorem C10_observer_set:
  assumes "distinct (observers t)" "state t \<noteq> Completed" "has_onProgress ob"
  shows "observers (addObserver (addObserver t ob) ob) = observers (addObserver t ob)
       \<and> count_list (observers (addObserver (addObserver t ob) ob)) ob = 1
       \<and> calls_to ob (snd (increment (addObserver (addObserver t ob) ob) a u c))
           = calls_to ob (addObserver (addObserver t ob) ob) + 1
       \<and> ob \<notin> set (observers (removeObserver (addObserver (addObserver t ob) ob) ob))
       \<and> calls_to ob (increments (removeObserver (addObserver (addObserver t ob) ob) ob) xs)
           = calls_to ob (addObserver (addObserver t ob) ob)"
proof -
  let ?t2 = "addObserver (addObserver t ob) ob"
  have obs: "observers ?t2 = set_add ob (observers t)"
    by (simp add: addObserver_def set_add_idem)
  have d: "distinct (observers ?t2)" using assms(1) by (simp add: obs distinct_set_add)
  have m: "ob \<in> set (observers ?t2)" by (simp add: obs set_add_def)
  have c1: "count_list (observers ?t2) ob = 1"
    using d m by (simp add: count_list_distinct)
  have st: "state ?t2 \<noteq> Completed" using assms(2) by (simp add: addObserver_def)
  have inc: "calls_to ob (snd (increment ?t2 a u c)) = calls_to ob ?t2 + 1"
    using st c1 assms(3) by (simp add: calls_to_increment count_list_filter)
  have gone: "ob \<notin> set (observers (removeObserver ?t2 ob))"
    by (simp add: removeObserver_def set_delete_def)
  have "calls_to ob (increments (removeObserver ?t2 ob) xs) = calls_to ob (removeObserver ?t2 ob)"
    using calls_to_increments_absent [OF gone] .
  then have later: "calls_to ob (increments (removeObserver ?t2 ob) xs) = calls_to ob ?t2"
    by (simp add: calls_to_def removeObserver_def)
  show ?thesis using c1 inc gone later by (simp add: addObserver_def set_add_idem)
qed

theorem C10_observer_set_witness:
  "distinct (observers (new_tracker 5 ''Progress'' None 0))
   \<and> state (new_tracker 5 ''Progress'' None 0) \<noteq> Completed
   \<and> has_onProgress (Callback 7)
   \<and> observers (addObserver (addObserver (new_tracker 5 ''Progress'' None 0) (Callback 7)) (Callback 7))
        = [Callback 7]
   \<and> calls_to (Callback 7)
        (snd (increment (addObserver (addObserver (new_tracker 5 ''Progress'' None 0) (Callback 7))
           (Callback 7)) 1 10 10)) = 1
   \<and> calls_to (Callback 7)
        (increments (removeObserver (addObserver (addObserver (new_tracker 5 ''Progress'' None 0)
           (Callback 7)) (Callback 7)) (Callback 7)) [(1, 10, 10), (1, 20, 20)]) = 0"
  using C10_observer_set [of "new_tracker 5 ''Progress'' None 0" "Callback 7" 1 10 10
          "[(1, 10, 10), (1, 20, 20)]"]
  by (simp add: new_tracker_def addObserver_def set_add_def calls_to_def)

section \<open>The percentage after setTotal\<close>





section \<open>Facts about the bar\<close>

lemma bar_getProgress_simps:
  "fst (bar_getProgress b now) = fst (getProgress (tracker b) now)"
  "snd (bar_getProgress b now) = b\<lparr>tracker := snd (getProgress (tracker b) now)\<rparr>"
  by (simp_all add: bar_getProgress_def case_prod_unfold Let_def)

lemma bar_render_silent:
  "renderer b = Silent r \<Longrightarrow>
     bar_render b pd now = b\<lparr>renderer := Silent (silent_render r pd now)\<rparr>"
  by (simp add: bar_render_def)

lemma hook_fields:
  "tracker (hook x y b) = tracker b"
  "renderer (hook x y b) = renderer b"
  "terminal (hook x y b) = terminal b"
  "interactive (hook x y b) = interactive b"
  "updateInterval (hook x y b) = updateInterval b"
  "cleanupFn (hook x y b) = cleanupFn b"
  "bar_state (hook x y b) =
     (if state x \<noteq> Completed \<and> state y = Completed then Completed else bar_state b)"
  by (simp_all add: hook_def)

lemma bar_stop_fields:
  "tracker (bar_stop b) = tracker b"
  "renderer (bar_stop b) = renderer b"
  "interactive (bar_stop b) = interactive b"
  "bar_state (bar_stop b) = (if bar_state b = Idle then Idle else Stopped)"
  by (simp_all add: bar_stop_def)

lemma bar_render_fields:
  "tracker (bar_render b pd now) = tracker b"
  "bar_state (bar_render b pd now) = bar_state b"
  "interactive (bar_render b pd now) = interactive b"
  "updateInterval (bar_render b pd now) = updateInterval b"
  "cleanupFn (bar_render b pd now) = cleanupFn b"
  "renderer (bar_render b pd now) = fst (render (renderer b) pd now (interactive b))"
  "terminal (bar_render b pd now) = terminal b @ snd (render (renderer b) pd now (interactive b))"
  by (simp_all add: bar_render_def case_prod_unfold Let_def)

lemma bar_complete_unfinished:
  "bar_state b \<noteq> Completed \<Longrightarrow>
     snd (bar_complete b nowC nowR) =
       bar_stop (bar_render
         (hook (tracker b) (snd (complete (tracker b) nowC))
            (b\<lparr>bar_state := Completed, tracker := snd (complete (tracker b) nowC)\<rparr>))
         (fst (complete (tracker b) nowC)) nowR)"
  by (simp add: bar_complete_def case_prod_unfold Let_def)

lemma bar_complete_renders:
  assumes "bar_state b \<noteq> Completed" "renderer b = Silent r"
  shows "silent_history (renderer (snd (bar_complete b nowC nowR))) =
           progressHistory r @ [(fst (complete (tracker b) nowC), nowR)]"
    and "bar_state (snd (bar_complete b nowC nowR)) = Stopped"
    and "tracker (snd (bar_complete b nowC nowR)) = snd (complete (tracker b) nowC)"
  using assms
  by (simp_all add: bar_complete_unfinished bar_stop_fields bar_render_fields hook_fields
        silent_history_def silent_render_def)

lemma bar_update_completed:
  assumes "bar_state b = Completed"
  shows "bar_update b a u c r = bar_getProgress b c"
    and "renderer (snd (bar_update b a u c r)) = renderer b"
    and "terminal (snd (bar_update b a u c r)) = terminal b"
    and "bar_state (snd (bar_update b a u c r)) = Completed"
  using assms by (simp_all add: bar_update_def bar_getProgress_simps)

lemma bar_update_started:
  assumes "bar_state b \<noteq> Completed" "bar_state b \<noteq> Idle"
  shows "snd (bar_update b a u c r) =
     (let t' = snd (increment (tracker b) a u c);
          progress = fst (increment (tracker b) a u c);
          b3 = bar_render (hook (tracker b) t' (b\<lparr>tracker := t'\<rparr>)) progress r
      in if isComplete progress \<and> bar_state b3 \<noteq> Completed
         then bar_stop (b3\<lparr>bar_state := Completed\<rparr>) else b3)"
    and "fst (bar_update b a u c r) = fst (increment (tracker b) a u c)"
  using assms by (simp_all add: bar_update_def case_prod_unfold Let_def)

lemma started_update: "started b \<Longrightarrow> started (snd (bar_update b a u c r))"
proof (cases "bar_state b = Completed")
  case True
  assume "started b"
  with True show ?thesis
    by (simp add: bar_update_completed(1) bar_getProgress_simps started_def getProgress_keeps
          split: if_splits)
next
  case False
  assume s: "started b"
  with False have act: "bar_state b = Active" and tr: "state (tracker b) \<noteq> Completed"
    by (auto simp: started_def split: if_splits)
  have ns: "bar_state b \<noteq> Idle" using act by simp
  show ?thesis
    using act tr increment_keeps_unfinished [OF tr, of a u c]
    by (simp add: bar_update_started(1) [OF False ns] Let_def started_def bar_render_fields
          hook_fields bar_stop_fields)
qed

lemma started_tick: "started b \<Longrightarrow> started (bar_tick b c r)"
  by (auto simp: bar_tick_def started_def case_prod_unfold bar_render_fields
        bar_getProgress_simps getProgress_keeps Let_def split: if_splits)

lemma started_run: "started b \<Longrightarrow> started (run_task b evs)"
  unfolding run_task_def
proof (induction evs arbitrary: b)
  case Nil
  then show ?case by simp
next
  case (Cons ev evs)
  have "started (bar_event b ev)"
    using Cons.prems by (cases ev) (simp_all add: started_update started_tick)
  then show ?case using Cons.IH by simp
qed

lemma started_new:
  "started (bar_start (new_progressBar tty tot d ro now0))"
  by (simp add: bar_start_def new_progressBar_def Let_def hook_def setState_fields started_def
        new_tracker_def)

lemma started_update_tracker:
  assumes "started b" "state (tracker b) \<noteq> Completed"
  shows "tracker (snd (bar_update b a u c r)) = snd (increment (tracker b) a u c)"
proof -
  from assms have act: "bar_state b = Active" by (simp add: started_def)
  then have n: "bar_state b \<noteq> Completed" "bar_state b \<noteq> Idle" by simp_all
  show ?thesis
    by (simp add: bar_update_started(1) [OF n] Let_def bar_render_fields hook_fields
          bar_stop_fields)
qed

lemma started_completed_iff: "started b \<Longrightarrow> bar_isCompleted b = (state (tracker b) = Completed)"
  by (auto simp: started_def bar_isCompleted_def split: if_splits)

lemma completed_by_update:
  "bar_state (snd (bar_update (bar_start (new_progressBar False 1 ''Progress'' None 0)) 1 10 10 10))
     = Completed"
proof -
  let ?b1 = "bar_start (new_progressBar False 1 ''Progress'' None 0)"
  have s1: "started ?b1" by (rule started_new)
  have t1: "state (tracker ?b1) = Active" "current (tracker ?b1) = 0" "total (tracker ?b1) = 1"
    by (simp_all add: bar_start_def new_progressBar_def Let_def hook_def setState_fields
          new_tracker_def)
  have "tracker (snd (bar_update ?b1 1 10 10 10)) = snd (increment (tracker ?b1) 1 10 10)"
    using started_update_tracker [OF s1] t1 by simp
  then have "state (tracker (snd (bar_update ?b1 1 10 10 10))) = Completed"
    using t1 by (simp add: increment_state)
  then show ?thesis
    using started_update [OF s1, of 1 10 10 10] by (simp add: started_def)
qed

section \<open>Completing twice, and updating after\<close>

text \<open>
  Claim C3 (amended). \<open>complete()\<close> on a tracker that is not completed sets
  \<open>current\<close> to \<open>total\<close> and the state to completed, calling each state observer
  once. A second call changes none of \<open>current\<close>, \<open>total\<close> and \<open>state\<close>, calls no
  observer, and returns a snapshot that agrees with the first in \<open>current\<close>,
  \<open>total\<close>, \<open>percentage\<close>, \<open>eta\<close>, \<open>isComplete\<close>, \<open>isIndeterminate\<close>,
  \<open>description\<close> and \<open>state\<close> (\<open>elapsed\<close> and \<open>speed\<close> are computed anew from the
  clock). \<open>ProgressBar.complete()\<close> on a bar whose own state is completed does
  not call the renderer.
\<close>

theorem C3_complete_twice:
  "(state t \<noteq> Completed \<longrightarrow>
      (let s1 = fst (complete t now1); t1 = snd (complete t now1);
           s2 = fst (complete t1 now2); t2 = snd (complete t1 now2)
       in current t1 = total t \<and> state t1 = Completed
          \<and> stateNotified t1 = stateNotified t @ map (\<lambda>ob. (ob, Completed, state t))
                                  (filter has_onStateChange (stateObservers t))
          \<and> current t2 = current t1 \<and> total t2 = total t1 \<and> state t2 = state t1
          \<and> stateNotified t2 = stateNotified t1 \<and> notified t2 = notified t
          \<and> pd_current s2 = pd_current s1 \<and> pd_total s2 = pd_total s1
          \<and> percentage s2 = percentage s1 \<and> eta s2 = eta s1
          \<and> isComplete s2 = isComplete s1 \<and> isIndeterminate s2 = isIndeterminate s1
          \<and> pd_description s2 = pd_description s1 \<and> pd_state s2 = pd_state s1))
   \<and> (bar_state b = Completed \<longrightarrow>
        renderer (snd (bar_complete b nowC nowR)) = renderer b
        \<and> terminal (snd (bar_complete b nowC nowR)) = terminal b
        \<and> bar_state (snd (bar_complete b nowC nowR)) = Completed)"
proof -
  have first: "let s1 = fst (complete t now1); t1 = snd (complete t now1);
           s2 = fst (complete t1 now2); t2 = snd (complete t1 now2)
       in current t1 = total t \<and> state t1 = Completed
          \<and> stateNotified t1 = stateNotified t @ map (\<lambda>ob. (ob, Completed, state t))
                                  (filter has_onStateChange (stateObservers t))
          \<and> current t2 = current t1 \<and> total t2 = total t1 \<and> state t2 = state t1
          \<and> stateNotified t2 = stateNotified t1 \<and> notified t2 = notified t
          \<and> pd_current s2 = pd_current s1 \<and> pd_total s2 = pd_total s1
          \<and> percentage s2 = percentage s1 \<and> eta s2 = eta s1
          \<and> isComplete s2 = isComplete s1 \<and> isIndeterminate s2 = isIndeterminate s1
          \<and> pd_description s2 = pd_description s1 \<and> pd_state s2 = pd_state s1"
    if a: "state t \<noteq> Completed"
  proof -
    have c1: "state (snd (complete t now1)) = Completed" using complete_first(3) [OF a] .
    have s1: "fst (complete t now1)
                = fst (getProgress (setState (t\<lparr>current := total t\<rparr>) Completed) now1)"
      using a by (simp add: complete_def)
    show ?thesis
      unfolding Let_def
      by (simp add: complete_again [OF c1] complete_first [OF a] getProgress_keeps s1
            getProgress_fields getProgress_percentage getProgress_eta_done setState_fields)
  qed
  have second: "renderer (snd (bar_complete b nowC nowR)) = renderer b
        \<and> terminal (snd (bar_complete b nowC nowR)) = terminal b
        \<and> bar_state (snd (bar_complete b nowC nowR)) = Completed"
    if "bar_state b = Completed"
    using that by (simp add: bar_complete_def bar_getProgress_def case_prod_unfold Let_def)
  show ?thesis using first second by blast
qed

theorem C3_complete_twice_witness:
  "state (new_tracker 5 ''Progress'' None 0) \<noteq> Completed
   \<and> current (snd (complete (new_tracker 5 ''Progress'' None 0) 1000)) = 5
   \<and> state (snd (complete (snd (complete (new_tracker 5 ''Progress'' None 0) 1000)) 2000)) = Completed
   \<and> percentage (fst (complete (snd (complete (new_tracker 5 ''Progress'' None 0) 1000)) 2000))
       = percentage (fst (complete (new_tracker 5 ''Progress'' None 0) 1000))
   \<and> bar_state (snd (bar_update (bar_start (new_progressBar False 1 ''Progress'' None 0)) 1 10 10 10))
       = Completed
   \<and> renderer (snd (bar_complete
        (snd (bar_update (bar_start (new_progressBar False 1 ''Progress'' None 0)) 1 10 10 10)) 20 20))
       = renderer (snd (bar_update (bar_start (new_progressBar False 1 ''Progress'' None 0)) 1 10 10 10))"
  using C3_complete_twice [of "new_tracker 5 ''Progress'' None 0" 1000 2000
          "snd (bar_update (bar_start (new_progressBar False 1 ''Progress'' None 0)) 1 10 10 10)"
          20 20]
  by (simp add: Let_def completed_by_update) (simp add:  new_tracker_def)

text \<open>
  Claim C3 as stated fails: the snapshot of a second \<open>complete()\<close>, one second
  after the first, differs from the first in \<open>elapsed\<close>; and a second
  \<open>ProgressBar.complete()\<close> calls the renderer again (two entries in the silent
  renderer's history), because the first leaves the bar's state \<open>"stopped"\<close>.
\<close>

theorem C3_counterexample:
  "elapsed (fst (complete (snd (complete (new_tracker 5 ''Progress'' None 0) 1000)) 2000))
     \<noteq> elapsed (fst (complete (new_tracker 5 ''Progress'' None 0) 1000))
   \<and> length (silent_history (renderer (snd (bar_complete
         (snd (bar_complete (new_progressBar False 5 ''Progress'' None 0) 1000 1000))
         2000 2000)))) = 2"
proof -
  let ?t0 = "new_tracker 5 ''Progress'' None 0"
  let ?b0 = "new_progressBar False 5 ''Progress'' None 0"
  let ?b1 = "snd (bar_complete ?b0 1000 1000)"
  have st0: "state ?t0 \<noteq> Completed" by (simp add: new_tracker_def)
  have e1: "elapsed (fst (complete ?t0 1000)) = 1"
    using st0 by (simp add: complete_def getProgress_fields setState_fields new_tracker_def)
  have c1: "state (snd (complete ?t0 1000)) = Completed" using complete_first(3) [OF st0] .
  have e2: "elapsed (fst (complete (snd (complete ?t0 1000)) 2000)) = 2"
    using st0
    by (simp add: complete_again [OF c1] getProgress_fields)
       (simp add: complete_def getProgress_keeps setState_fields new_tracker_def)
  have b0: "bar_state ?b0 \<noteq> Completed" "renderer ?b0 = Silent new_silentRenderer"
    by (simp_all add: new_progressBar_def createDefaultRenderer_def)
  have b1: "bar_state ?b1 \<noteq> Completed"
    using bar_complete_renders(2) [OF b0] by simp
  have r1: "renderer ?b1 = Silent (silent_render new_silentRenderer
              (fst (complete (tracker ?b0) 1000)) 1000)"
    using b0 by (simp add: bar_complete_unfinished bar_stop_fields bar_render_fields hook_fields)
  have "length (silent_history (renderer (snd (bar_complete ?b1 2000 2000)))) = 2"
    using bar_complete_renders(1) [OF b1 r1]
    by (simp add: silent_render_def new_silentRenderer_def)
  with e1 e2 show ?thesis by simp
qed

text \<open>
  Claim C4, where the program departs from it. After \<open>ProgressBar.complete()\<close>
  the tracker is completed, yet a further \<open>update(1)\<close> calls the renderer once
  more with the complete snapshot (a second entry in the silent renderer's
  history): \<open>stop()\<close>, called by \<open>complete()\<close>, has overwritten the bar's state
  \<open>"completed"\<close> with \<open>"stopped"\<close>, so the guard of \<open>update\<close> does not hold.
\<close>

theorem C4_update_after_complete:
  "state (tracker (snd (bar_complete
       (new_progressBar False 5 ''Progress'' (Some (Silent new_silentRenderer)) 0) 1000 1000)))
     = Completed
   \<and> length (silent_history (renderer (snd (bar_complete
       (new_progressBar False 5 ''Progress'' (Some (Silent new_silentRenderer)) 0) 1000 1000)))) = 1
   \<and> length (silent_history (renderer (snd (bar_update (snd (bar_complete
       (new_progressBar False 5 ''Progress'' (Some (Silent new_silentRenderer)) 0) 1000 1000))
       1 2000 2000 2000)))) = 2"
proof -
  let ?b0 = "new_progressBar False 5 ''Progress'' (Some (Silent new_silentRenderer)) 0"
  let ?b1 = "snd (bar_complete ?b0 1000 1000)"
  have b0: "bar_state ?b0 \<noteq> Completed" "renderer ?b0 = Silent new_silentRenderer"
    by (simp_all add: new_progressBar_def)
  have t0: "state (tracker ?b0) \<noteq> Completed"
    by (simp add: new_progressBar_def new_tracker_def)
  have st: "bar_state ?b1 = Stopped" using bar_complete_renders(2) [OF b0] .
  have tr: "state (tracker ?b1) = Completed"
    using bar_complete_renders(3) [OF b0] complete_first(3) [OF t0] by simp
  have h1: "silent_history (renderer ?b1) = [(fst (complete (tracker ?b0) 1000), 1000)]"
    using bar_complete_renders(1) [OF b0] by (simp add: new_silentRenderer_def)
  then obtain r1 where r1: "renderer ?b1 = Silent r1" "length (progressHistory r1) = 1"
    by (cases "renderer ?b1") (simp_all add: silent_history_def)
  have "length (silent_history (renderer (snd (bar_update ?b1 1 2000 2000 2000)))) = 2"
    using st r1
    by (simp add: bar_update_started Let_def bar_render_fields hook_fields bar_stop_fields
          silent_history_def silent_render_def)
  with tr h1 show ?thesis by simp
qed

section \<open>withProgress\<close>

lemma withProgress_throws:
  "fst (withProgress tty tot d evs (Inl err) now0 nowC nowR) = Inl err"
  "snd (snd (withProgress tty tot d evs (Inl err) now0 nowC nowR)) = [(d, err)]"
  "bar_state (fst (snd (withProgress tty tot d evs (Inl err) now0 nowC nowR))) = Stopped"
  "updateInterval (fst (snd (withProgress tty tot d evs (Inl err) now0 nowC nowR))) = False"
  "cleanupFn (fst (snd (withProgress tty tot d evs (Inl err) now0 nowC nowR))) = False"
proof -
  let ?b1 = "run_task (bar_start (new_progressBar tty tot d
                (Some (Console (new_consoleRenderer default_config))) now0)) evs"
  have "started ?b1" using started_run [OF started_new] .
  then have ns: "bar_state ?b1 \<noteq> Idle" "bar_state ?b1 \<noteq> Stopped"
    by (auto simp: started_def split: if_splits)
  show "fst (withProgress tty tot d evs (Inl err) now0 nowC nowR) = Inl err"
    and "snd (snd (withProgress tty tot d evs (Inl err) now0 nowC nowR)) = [(d, err)]"
    by (simp_all add: withProgress_def Let_def)
  show "bar_state (fst (snd (withProgress tty tot d evs (Inl err) now0 nowC nowR))) = Stopped"
    and "updateInterval (fst (snd (withProgress tty tot d evs (Inl err) now0 nowC nowR))) = False"
    and "cleanupFn (fst (snd (withProgress tty tot d evs (Inl err) now0 nowC nowR))) = False"
    using ns by (simp_all add: withProgress_def Let_def bar_stop_def)
qed

lemma withProgress_returns:
  "fst (withProgress tty tot d evs (Inr res) now0 nowC nowR) = Inr res"
  "snd (snd (withProgress tty tot d evs (Inr res) now0 nowC nowR)) = []"
  "bar_state (fst (snd (withProgress tty tot d evs (Inr res) now0 nowC nowR))) =
     (if bar_isCompleted (run_task (bar_start (new_progressBar tty tot d
                (Some (Console (new_consoleRenderer default_config))) now0)) evs)
      then Completed else Stopped)"
  "state (tracker (fst (snd (withProgress tty tot d evs (Inr res) now0 nowC nowR)))) = Completed"
proof -
  let ?b1 = "run_task (bar_start (new_progressBar tty tot d
                (Some (Console (new_consoleRenderer default_config))) now0)) evs"
  have s: "started ?b1" using started_run [OF started_new] .
  show "fst (withProgress tty tot d evs (Inr res) now0 nowC nowR) = Inr res"
    and "snd (snd (withProgress tty tot d evs (Inr res) now0 nowC nowR)) = []"
    by (simp_all add: withProgress_def Let_def)
  show "bar_state (fst (snd (withProgress tty tot d evs (Inr res) now0 nowC nowR))) =
     (if bar_isCompleted ?b1 then Completed else Stopped)"
    by (simp add: withProgress_def Let_def bar_isCompleted_def bar_complete_unfinished
          bar_stop_fields bar_render_fields hook_fields)
  show "state (tracker (fst (snd (withProgress tty tot d evs (Inr res) now0 nowC nowR)))) = Completed"
  proof (cases "bar_state ?b1 = Completed")
    case True
    with s show ?thesis
      by (simp add: withProgress_def Let_def bar_isCompleted_def started_def split: if_splits)
  next
    case False
    with s have tr: "state (tracker ?b1) \<noteq> Completed"
      by (auto simp: started_def split: if_splits)
    show ?thesis
      using False complete_first(3) [OF tr]
      by (simp add: withProgress_def Let_def bar_isCompleted_def bar_complete_unfinished
            bar_stop_fields bar_render_fields hook_fields)
  qed
qed

text \<open>
  Claim C9, where the program departs from it. A task that updates 2 of 5 units
  and returns 42: \<open>withProgress\<close> returns 42, but the bar ends in state
  \<open>"stopped"\<close>, not \<open>"completed"\<close>: the helper's \<open>complete()\<close> ends with \<open>stop()\<close>,
  which overwrites the state. (When the task throws, the bar ends stopped, the
  notice is written and the error comes back unchanged: \<open>withProgress_throws\<close>.)
\<close>

theorem C9_returns_but_stopped:
  "fst (withProgress False 5 ''Job'' [CallUpdate 1 10 10 10, CallUpdate 1 20 20 20]
          (Inr 42 :: unit + nat) 0 30 30) = Inr 42
   \<and> bar_state (fst (snd (withProgress False 5 ''Job''
          [CallUpdate 1 10 10 10, CallUpdate 1 20 20 20] (Inr 42 :: unit + nat) 0 30 30))) = Stopped
   \<and> \<not> bar_isCompleted (fst (snd (withProgress False 5 ''Job''
          [CallUpdate 1 10 10 10, CallUpdate 1 20 20 20] (Inr 42 :: unit + nat) 0 30 30)))"
proof -
  let ?b1 = "bar_start (new_progressBar False 5 ''Job''
                (Some (Console (new_consoleRenderer default_config))) 0)"
  let ?b2 = "snd (bar_update ?b1 1 10 10 10)"
  let ?b3 = "snd (bar_update ?b2 1 20 20 20)"
  have s1: "started ?b1" by (rule started_new)
  have t1: "state (tracker ?b1) = Active" "current (tracker ?b1) = 0" "total (tracker ?b1) = 5"
    by (simp_all add: bar_start_def new_progressBar_def Let_def hook_def setState_fields
          new_tracker_def)
  have s2: "started ?b2" using started_update [OF s1] .
  have tr2: "tracker ?b2 = snd (increment (tracker ?b1) 1 10 10)"
    using started_update_tracker [OF s1] t1 by simp
  have t2: "state (tracker ?b2) = Active" "current (tracker ?b2) = 1" "total (tracker ?b2) = 5"
    using t1 by (simp_all add: tr2 increment_state increment_current increment_total)
  have s3: "started ?b3" using started_update [OF s2] .
  have tr3: "tracker ?b3 = snd (increment (tracker ?b2) 1 20 20)"
    using started_update_tracker [OF s2] t2 by simp
  have t3: "state (tracker ?b3) = Active"
    using t2 by (simp add: tr3 increment_state)
  have run: "run_task ?b1 [CallUpdate 1 10 10 10, CallUpdate 1 20 20 20] = ?b3"
    by (simp add: run_task_def)
  have nc: "\<not> bar_isCompleted ?b3"
    using started_completed_iff [OF s3] t3 by simp
  have r: "fst (withProgress False 5 ''Job'' [CallUpdate 1 10 10 10, CallUpdate 1 20 20 20]
          (Inr 42 :: unit + nat) 0 30 30) = Inr 42"
    by (rule withProgress_returns(1))
  have "bar_state (fst (snd (withProgress False 5 ''Job''
          [CallUpdate 1 10 10 10, CallUpdate 1 20 20 20] (Inr 42 :: unit + nat) 0 30 30))) =
     (if bar_isCompleted (run_task ?b1 [CallUpdate 1 10 10 10, CallUpdate 1 20 20 20])
      then Completed else Stopped)"
    by (rule withProgress_returns(3))
  then have st: "bar_state (fst (snd (withProgress False 5 ''Job''
          [CallUpdate 1 10 10 10, CallUpdate 1 20 20 20] (Inr 42 :: unit + nat) 0 30 30))) = Stopped"
    using nc by (simp add: run)
  show ?thesis using r st by (simp add: bar_isCompleted_def)
qed

section \<open>The throttle of the console renderer\<close>









section \<open>The speed history\<close>

lemma foldl_js_add_Fin: "foldl js_add (Fin a) (map Fin rs) = Fin (a + sum_list rs)"
  by (induction rs arbitrary: a) (simp_all add: add.assoc)

lemma all_fin_map: "list_all is_fin h \<Longrightarrow> h = map Fin (map fin_of h)"
proof (induction h)
  case Nil
  then show ?case by simp
next
  case (Cons x h)
  then show ?case by (cases x) simp_all
qed

lemma mean_of_all_fin:
  assumes "list_all is_fin h" "h \<noteq> []"
  shows "mean_of h (js_div (foldl js_add (Fin 0) h) (Fin (real (length h))))"
proof -
  let ?rs = "map fin_of h"
  have h: "h = map Fin ?rs" using all_fin_map [OF assms(1)] .
  have "foldl js_add (Fin 0) h = Fin (sum_list ?rs)"
    using foldl_js_add_Fin [of 0 ?rs] h by simp
  moreover have "real (length h) \<noteq> 0" using assms(2) by simp
  ultimately have "js_div (foldl js_add (Fin 0) h) (Fin (real (length h)))
                     = Fin (sum_list ?rs / real (length ?rs))"
    by simp
  moreover have "\<exists>rs. h = map Fin rs
                  \<and> Fin (sum_list ?rs / real (length ?rs)) = Fin (sum_list rs / real (length rs))"
    using h by (intro exI [of _ ?rs]) simp
  ultimately show ?thesis using assms(2) unfolding mean_of_def by simp
qed

lemma calculateSpeed_paused:
  "elapsed_s \<le> 0 \<Longrightarrow> calculateSpeed c cur elapsed_s = (Fin 0, c)"
  by (simp add: calculateSpeed_def)

lemma calculateSpeed_history:
  assumes "0 < elapsed_s"
  shows "speedHistory (snd (calculateSpeed c cur elapsed_s)) =
           (if length (speedHistory c) + 1 > maxHistorySize c
            then tl (speedHistory c @ [Fin (cur / elapsed_s)])
            else speedHistory c @ [Fin (cur / elapsed_s)])"
    and "maxHistorySize (snd (calculateSpeed c cur elapsed_s)) = maxHistorySize c"
    and "fst (calculateSpeed c cur elapsed_s) =
           js_div (foldl js_add (Fin 0) (speedHistory (snd (calculateSpeed c cur elapsed_s))))
             (Fin (real (length (speedHistory (snd (calculateSpeed c cur elapsed_s))))))"
  using assms by (simp_all add: calculateSpeed_def Let_def)

lemma calculateSpeed_recent:
  assumes "0 < elapsed_s" "maxHistorySize c = 10" "length (speedHistory c) \<le> 10"
  shows "speedHistory (snd (calculateSpeed c cur elapsed_s)) =
           drop (Suc (length (speedHistory c)) - 10) (speedHistory c @ [Fin (cur / elapsed_s)])"
proof (cases "length (speedHistory c) = 10")
  case True
  then have "speedHistory c \<noteq> []" by auto
  then show ?thesis
    using True assms by (simp add: calculateSpeed_history(1) drop_Suc tl_append split: list.splits)
next
  case False
  then have "length (speedHistory c) < 10" using assms(3) by simp
  then show ?thesis using assms by (simp add: calculateSpeed_history(1))
qed

lemma calculate_speed_part:
  "speed (fst (calculate c cur tot s l now)) = fst (calculateSpeed c cur ((now - s) / 1000))"
  "snd (calculate c cur tot s l now) = snd (calculateSpeed c cur ((now - s) / 1000))"
  by (simp_all add: calculate_def Let_def case_prod_unfold)

lemma getProgress_speed_part:
  "speed (fst (getProgress t now)) =
     fst (calculateSpeed (calculator t) (current t) ((now - startTime t) / 1000))"
  "calculator (snd (getProgress t now)) =
     snd (calculateSpeed (calculator t) (current t) ((now - startTime t) / 1000))"
  by (simp_all add: getProgress_fst getProgress_snd Let_def calculate_speed_part)

lemma history_ok_cong:
  "calculator t' = calculator t \<Longrightarrow> startTime t' = startTime t \<Longrightarrow>
     history_ok t' clk = history_ok t clk"
  by (simp add: history_ok_def)

lemma history_ok_later: "history_ok t clk \<Longrightarrow> clk \<le> clk' \<Longrightarrow> history_ok t clk'"
  by (auto simp: history_ok_def)

lemma getProgress_ok:
  assumes "history_ok t clk" "clk \<le> now"
  shows "history_ok (snd (getProgress t now)) now"
    and "mean_of (speedHistory (calculator (snd (getProgress t now)))) (speed (fst (getProgress t now)))"
proof -
  let ?e = "(now - startTime t) / 1000"
  let ?c = "calculator t"
  let ?h = "speedHistory (snd (calculateSpeed ?c (current t) ?e))"
  from assms have ok: "maxHistorySize ?c = 10" "length (speedHistory ?c) \<le> 10"
      "list_all is_fin (speedHistory ?c)" "startTime t \<le> clk"
      "speedHistory ?c = [] \<or> startTime t < clk"
    by (simp_all add: history_ok_def)
  have "history_ok (snd (getProgress t now)) now
        \<and> mean_of (speedHistory (calculator (snd (getProgress t now))))
             (speed (fst (getProgress t now)))"
  proof (cases "?e \<le> 0")
    case True
    then have "now \<le> startTime t" by simp
    with ok(4,5) assms(2) have empty: "speedHistory ?c = []" and eq: "startTime t = now"
      by auto
    show ?thesis
      using True empty eq ok
      by (simp add: getProgress_speed_part calculateSpeed_paused history_ok_def mean_of_def
            getProgress_keeps)
  next
    case False
    then have pos: "0 < ?e" by simp
    then have later: "startTime t < now" by simp
    have h: "?h = drop (Suc (length (speedHistory ?c)) - 10)
                    (speedHistory ?c @ [Fin (current t / ?e)])"
      using calculateSpeed_recent [OF pos ok(1,2)] .
    have ne: "?h \<noteq> []" using ok(2) by (simp add: h)
    have len: "length ?h \<le> 10" using ok(2) by (simp add: h)
    have "list_all is_fin (speedHistory ?c @ [Fin (current t / ?e)])" using ok(3) by simp
    then have fin: "list_all is_fin ?h"
      unfolding h list_all_iff by (meson in_set_dropD)
    have m: "mean_of ?h (fst (calculateSpeed ?c (current t) ?e))"
      using mean_of_all_fin [OF fin ne] calculateSpeed_history(3) [OF pos, of ?c "current t"]
      by simp
    show ?thesis
      using m fin len later ok(1) calculateSpeed_history(2) [OF pos, of ?c "current t"]
      by (simp add: getProgress_speed_part history_ok_def getProgress_keeps)
  qed
  then show "history_ok (snd (getProgress t now)) now"
    and "mean_of (speedHistory (calculator (snd (getProgress t now)))) (speed (fst (getProgress t now)))"
    by simp_all
qed

lemma increment_via_getProgress:
  "state t = Completed \<Longrightarrow> increment t a u c = getProgress t c"
  "state t \<noteq> Completed \<Longrightarrow>
     fst (increment t a u c) =
       fst (getProgress (t\<lparr>current := min (total t) (current t + a), lastUpdateTime := u\<rparr>) c)"
  "state t \<noteq> Completed \<Longrightarrow>
     calculator (snd (increment t a u c)) =
       calculator (snd (getProgress
         (t\<lparr>current := min (total t) (current t + a), lastUpdateTime := u\<rparr>) c))"
  "startTime (snd (increment t a u c)) = startTime t"
  by (simp_all add: increment_def Let_def case_prod_unfold notifyObservers_def setState_fields
        getProgress_keeps)

lemma complete_via_getProgress:
  "fst (complete t now) =
     fst (getProgress (if state t = Completed then t
                       else setState (t\<lparr>current := total t\<rparr>) Completed) now)"
  "calculator (snd (complete t now)) =
     calculator (snd (getProgress (if state t = Completed then t
                       else setState (t\<lparr>current := total t\<rparr>) Completed) now))"
  "startTime (snd (complete t now)) = startTime t"
  by (simp_all add: complete_def getProgress_keeps setState_fields)

lemma reset_history:
  "speedHistory (calculator (reset t now)) = []"
  "maxHistorySize (calculator (reset t now)) = maxHistorySize (calculator t)"
  "startTime (reset t now) = now"
  by (simp_all add: reset_def Let_def setState_fields)

lemma apply_op_ok:
  assumes "history_ok t clk" "sorted (clk # op_clock op)"
  shows "history_ok (snd (apply_op t op)) (last (clk # op_clock op))
         \<and> (\<forall>pd. fst (apply_op t op) = Some pd \<longrightarrow>
               mean_of (speedHistory (calculator (snd (apply_op t op)))) (speed pd))"
proof (cases op)
  case (Increment a u c)
  with assms(2) have le: "clk \<le> c" by simp
  show ?thesis
  proof (cases "state t = Completed")
    case True
    then show ?thesis
      using getProgress_ok [OF assms(1) le]
      by (simp add: Increment case_prod_unfold Let_def increment_via_getProgress(1))
  next
    case False
    let ?t1 = "t\<lparr>current := min (total t) (current t + a), lastUpdateTime := u\<rparr>"
    have "history_ok ?t1 clk" using assms(1) by (simp add: history_ok_def)
    from getProgress_ok [OF this le]
    have "history_ok (snd (getProgress ?t1 c)) c"
      and m: "mean_of (speedHistory (calculator (snd (getProgress ?t1 c))))
                (speed (fst (getProgress ?t1 c)))"
      by simp_all
    then have "history_ok (snd (increment t a u c)) c"
      using history_ok_cong [of "snd (increment t a u c)" "snd (getProgress ?t1 c)" c]
      by (simp add: increment_via_getProgress(3) [OF False] increment_via_getProgress(4)
            getProgress_keeps)
    then show ?thesis
      using m False
      by (simp add: Increment case_prod_unfold Let_def increment_via_getProgress(2,3))
  qed
next
  case (GetProgress now)
  with assms(2) have le: "clk \<le> now" by simp
  show ?thesis
    using getProgress_ok [OF assms(1) le] by (simp add: GetProgress case_prod_unfold Let_def)
next
  case (Complete now)
  with assms(2) have le: "clk \<le> now" by simp
  let ?t1 = "if state t = Completed then t else setState (t\<lparr>current := total t\<rparr>) Completed"
  have "history_ok ?t1 clk" using assms(1) by (simp add: history_ok_def setState_fields)
  from getProgress_ok [OF this le]
  have ok: "history_ok (snd (getProgress ?t1 now)) now"
    and m: "mean_of (speedHistory (calculator (snd (getProgress ?t1 now))))
              (speed (fst (getProgress ?t1 now)))"
    by simp_all
  have "history_ok (snd (complete t now)) now"
    using ok history_ok_cong [of "snd (complete t now)" "snd (getProgress ?t1 now)" now]
    by (simp add: complete_via_getProgress getProgress_keeps setState_fields)
  then show ?thesis
    using m by (simp add: Complete case_prod_unfold Let_def complete_via_getProgress)
next
  case (Reset now)
  with assms show ?thesis by (simp add: history_ok_def reset_history)
next
  case (SetTotal x)
  with assms show ?thesis by (simp add: history_ok_def setTotal_def)
next
  case (SetState x)
  with assms show ?thesis by (simp add: history_ok_def setState_fields)
next
  case (AddObserver x)
  with assms show ?thesis by (simp add: history_ok_def addObserver_def)
next
  case (RemoveObserver x)
  with assms show ?thesis by (simp add: history_ok_def removeObserver_def)
next
  case (AddStateObserver x)
  with assms show ?thesis by (simp add: history_ok_def addStateObserver_def)
next
  case (RemoveStateObserver x)
  with assms show ?thesis by (simp add: history_ok_def removeStateObserver_def)
qed

lemma sorted_last_append:
  fixes xs :: "real list"
  assumes "sorted (xs @ ys)" "xs \<noteq> []"
  shows "sorted (last xs # ys)"
  using assms by (auto simp: sorted_append)

lemma last_append_cons: "last ((x # xs) @ ys) = last (last (x # xs) # ys)"
  by (cases ys) simp_all

lemma run_ops_ok:
  "sorted (t0 # concat (map op_clock ops)) \<Longrightarrow>
     history_ok (run_ops (new_tracker T d None t0) ops) (last (t0 # concat (map op_clock ops)))"
proof (induction ops rule: rev_induct)
  case Nil
  show ?case
    by (simp add: run_ops_def history_ok_def new_tracker_def new_calculator_def)
next
  case (snoc op ops)
  let ?pre = "t0 # concat (map op_clock ops)"
  from snoc.prems have s: "sorted (?pre @ op_clock op)" by simp
  then have "sorted ?pre" using sorted_append by blast
  then have ok: "history_ok (run_ops (new_tracker T d None t0) ops) (last ?pre)"
    using snoc.IH by simp
  have "sorted (last ?pre # op_clock op)" using sorted_last_append [OF s] by simp
  from apply_op_ok [OF ok this]
  have "history_ok (run_ops (new_tracker T d None t0) (ops @ [op])) (last (last ?pre # op_clock op))"
    by (simp add: run_ops_snoc)
  moreover have "last (t0 # concat (map op_clock (ops @ [op]))) = last (last ?pre # op_clock op)"
    using last_append_cons [of t0 "concat (map op_clock ops)" "op_clock op"] by simp
  ultimately show ?case by simp
qed

lemma calculateSpeed_bounded:
  assumes "maxHistorySize c = 10" "length (speedHistory c) \<le> 10"
  shows "maxHistorySize (snd (calculateSpeed c cur e)) = 10"
    and "length (speedHistory (snd (calculateSpeed c cur e))) \<le> 10"
  using assms by (simp_all add: calculateSpeed_def Let_def)

text \<open>The bound alone needs nothing of the clock.\<close>

lemma apply_op_bounded:
  assumes "maxHistorySize (calculator t) = 10" "length (speedHistory (calculator t)) \<le> 10"
  shows "maxHistorySize (calculator (snd (apply_op t op))) = 10
         \<and> length (speedHistory (calculator (snd (apply_op t op)))) \<le> 10"
proof (cases op)
  case (Increment a u c)
  show ?thesis
  proof (cases "state t = Completed")
    case True
    then show ?thesis
      using assms
      by (simp add: Increment case_prod_unfold Let_def increment_via_getProgress(1)
            getProgress_speed_part calculateSpeed_bounded)
  next
    case False
    then show ?thesis
      using assms
      by (simp add: Increment case_prod_unfold Let_def increment_via_getProgress(3)
            getProgress_speed_part calculateSpeed_bounded)
  qed
next
  case (GetProgress now)
  then show ?thesis
    using assms
    by (simp add: case_prod_unfold Let_def getProgress_speed_part calculateSpeed_bounded)
next
  case (Complete now)
  then show ?thesis
    using assms
    by (simp add: case_prod_unfold Let_def complete_via_getProgress getProgress_speed_part
          calculateSpeed_bounded setState_fields)
next
  case (Reset now)
  with assms show ?thesis by (simp add: reset_history)
next
  case (SetTotal x)
  with assms show ?thesis by (simp add: setTotal_def)
next
  case (SetState x)
  with assms show ?thesis by (simp add: setState_fields)
next
  case (AddObserver x)
  with assms show ?thesis by (simp add: addObserver_def)
next
  case (RemoveObserver x)
  with assms show ?thesis by (simp add: removeObserver_def)
next
  case (AddStateObserver x)
  with assms show ?thesis by (simp add: addStateObserver_def)
next
  case (RemoveStateObserver x)
  with assms show ?thesis by (simp add: removeStateObserver_def)
qed

lemma run_ops_bounded:
  "maxHistorySize (calculator (run_ops (new_tracker T d None t0) ops)) = 10
   \<and> length (speedHistory (calculator (run_ops (new_tracker T d None t0) ops))) \<le> 10"
proof (induction ops rule: rev_induct)
  case Nil
  show ?case by (simp add: run_ops_def new_tracker_def new_calculator_def)
next
  case (snoc op ops)
  then show ?case using apply_op_bounded by (simp add: run_ops_snoc)
qed

text \<open>
  Claim C8. After every sequence of tracker operations on a fresh tracker the
  speed history holds at most 10 samples; a new sample is appended and, past
  10, the oldest dropped, so the history is the most recent 10; with the
  monotonic clock of \<open>performance.now()\<close>, the speed of every snapshot an
  operation returns is the arithmetic mean of the history it leaves (and 0 when
  that is empty); and \<open>reset()\<close> empties the history.
\<close>

theorem C8_speed_history:
  "length (speedHistory (calculator (run_ops (new_tracker T d None t0) ops))) \<le> 10
   \<and> (0 < e \<longrightarrow>
        speedHistory (snd (calculateSpeed (calculator (run_ops (new_tracker T d None t0) ops)) cur e))
          = drop (Suc (length (speedHistory (calculator (run_ops (new_tracker T d None t0) ops)))) - 10)
              (speedHistory (calculator (run_ops (new_tracker T d None t0) ops)) @ [Fin (cur / e)]))
   \<and> (sorted (t0 # concat (map op_clock (ops @ [op])))
        \<and> fst (apply_op (run_ops (new_tracker T d None t0) ops) op) = Some pd \<longrightarrow>
        mean_of (speedHistory (calculator (snd (apply_op (run_ops (new_tracker T d None t0) ops) op))))
          (speed pd))
   \<and> speedHistory (calculator (reset (run_ops (new_tracker T d None t0) ops) now)) = []"
proof -
  let ?t = "run_ops (new_tracker T d None t0) ops"
  have b: "maxHistorySize (calculator ?t) = 10" "length (speedHistory (calculator ?t)) \<le> 10"
    using run_ops_bounded [of T d t0 ops] by simp_all
  have recent: "speedHistory (snd (calculateSpeed (calculator ?t) cur e))
          = drop (Suc (length (speedHistory (calculator ?t))) - 10)
              (speedHistory (calculator ?t) @ [Fin (cur / e)])" if "0 < e"
    using calculateSpeed_recent [OF that b] .
  have mean: "mean_of (speedHistory (calculator (snd (apply_op ?t op)))) (speed pd)"
    if s: "sorted (t0 # concat (map op_clock (ops @ [op])))"
      and r: "fst (apply_op ?t op) = Some pd"
  proof -
    let ?pre = "t0 # concat (map op_clock ops)"
    from s have s': "sorted (?pre @ op_clock op)" by simp
    then have "sorted ?pre" using sorted_append by blast
    then have ok: "history_ok ?t (last ?pre)" by (rule run_ops_ok)
    have "sorted (last ?pre # op_clock op)" using sorted_last_append [OF s'] by simp
    from apply_op_ok [OF ok this] r show ?thesis by blast
  qed
  show ?thesis using b(2) recent mean by (simp add: reset_history)
qed

lemma example_run:
  "speedHistory (calculator (run_ops (new_tracker 5 ''Progress'' None 0) [Increment 1 1000 1000]))
     = [Fin 1]"
  "speedHistory (calculator (snd (apply_op
       (run_ops (new_tracker 5 ''Progress'' None 0) [Increment 1 1000 1000]) (GetProgress 2000))))
     = [Fin 1, Fin (1 / 2)]"
  "speed (fst (getProgress
       (run_ops (new_tracker 5 ''Progress'' None 0) [Increment 1 1000 1000]) 2000)) = Fin (3 / 4)"
  by (simp_all add: run_ops_def case_prod_unfold Let_def increment_via_getProgress
        getProgress_speed_part getProgress_keeps increment_current calculateSpeed_def
        new_tracker_def new_calculator_def)

theorem C8_speed_history_witness:
  "sorted (0 # concat (map op_clock ([Increment 1 1000 1000] @ [GetProgress 2000])))
   \<and> fst (apply_op (run_ops (new_tracker 5 ''Progress'' None 0) [Increment 1 1000 1000])
           (GetProgress 2000))
       = Some (fst (getProgress
           (run_ops (new_tracker 5 ''Progress'' None 0) [Increment 1 1000 1000]) 2000))
   \<and> mean_of (speedHistory (calculator (snd (apply_op
           (run_ops (new_tracker 5 ''Progress'' None 0) [Increment 1 1000 1000])
           (GetProgress 2000)))))
         (speed (fst (getProgress
           (run_ops (new_tracker 5 ''Progress'' None 0) [Increment 1 1000 1000]) 2000)))
   \<and> (0::real) < 2
   \<and> speedHistory (snd (calculateSpeed (calculator
           (run_ops (new_tracker 5 ''Progress'' None 0) [Increment 1 1000 1000])) 2 2))
       = [Fin 1, Fin 1]
   \<and> length (speedHistory (calculator
           (run_ops (new_tracker 5 ''Progress'' None 0) [Increment 1 1000 1000]))) \<le> 10
   \<and> speedHistory (calculator (reset
           (run_ops (new_tracker 5 ''Progress'' None 0) [Increment 1 1000 1000]) 3000)) = []"
  using C8_speed_history [of 5 "''Progress''" 0 "[Increment 1 1000 1000]" 2 2 "GetProgress 2000"
          "fst (getProgress (run_ops (new_tracker 5 ''Progress'' None 0) [Increment 1 1000 1000]) 2000)"
          3000]
  by (simp add: example_run(1) case_prod_unfold Let_def)

end
